theory Spec2Isabelle
  imports Main "HOL-Library.Word" "HOL-Library.Multiset" "HOL-Library.AList"
begin

section \<open>Data model of Azure2019.py\<close>

text \<open>
  A cell of a row dictionary as \<open>DataFrame.to_dicts\<close> hands it over: a Python int, a
  Python str (held as its UTF-8 bytes, so that \<open>str.encode\<close> is the identity) or
  \<open>None\<close>. Float and Boolean columns are outside this model.
\<close>

datatype cell = CInt int | CStr string | CNull

datatype py_error = ReadError | KeyError string | TypeError

type_synonym row_dict = "string \<Rightarrow> cell option"

text \<open>Python dictionaries keep insertion order: association lists with distinct keys,
  read with \<open>map_of\<close> and written with \<open>AList.update\<close> (in place, or appended).\<close>

type_synonym invocations = "(string \<times> int list) list"

record translation =
  HashOwner :: cell
  HashApp :: cell
  HashFunction :: cell
  Trigger :: cell
  original_uuid :: string
  new_hash_uuid :: string

record inv_row =
  uuid :: string
  time :: "int list"
  call_count :: int

section \<open>str() and f-string formatting\<close>

function str_nat :: "nat \<Rightarrow> string" where
  "str_nat n = (if n < 10 then [char_of (48 + n)]
                else str_nat (n div 10) @ [char_of (48 + n mod 10)])"
  by pat_completeness auto
termination
  by (relation "measure id") auto

declare str_nat.simps [simp del]

definition str_int :: "int \<Rightarrow> string" where
  "str_int i = (if i < 0 then CHR ''-'' # str_nat (nat (- i)) else str_nat (nat i))"

definition fmt :: "cell \<Rightarrow> string" where
  "fmt c = (case c of CStr s \<Rightarrow> s | CInt i \<Rightarrow> str_int i | CNull \<Rightarrow> ''None'')"

section \<open>create_hash_id\<close>

text \<open>
  \<open>hashlib.md5\<close> is a library function; it is a parameter \<open>md5\<close> of the model, from
  the bytes of the message to the 128-bit digest (read as a big-endian number, the
  order in which \<open>hexdigest\<close> prints its bytes).
\<close>

definition hex_digit :: "nat \<Rightarrow> char" where
  "hex_digit n = ''0123456789abcdef'' ! (n mod 16)"

definition hexdigest :: "128 word \<Rightarrow> string" where
  "hexdigest d = map (\<lambda>i. hex_digit (unat (drop_bit (4 * (31 - i)) d))) [0..<32]"

definition combined :: "cell \<Rightarrow> cell \<Rightarrow> cell \<Rightarrow> string" where
  "combined owner app func = fmt owner @ ''_'' @ fmt app @ ''_'' @ fmt func"

definition create_hash_id :: "(string \<Rightarrow> 128 word) \<Rightarrow> cell \<Rightarrow> cell \<Rightarrow> cell \<Rightarrow> string" where
  "create_hash_id md5 owner app func = take 10 (hexdigest (md5 (combined owner app func)))"

section \<open>normalize_time_list\<close>

text \<open>Python's \<open>round\<close> on an int: the int itself for \<open>ndigits \<ge> 0\<close>, otherwise
  rounded half to even at \<open>10 ^ -ndigits\<close>.\<close>

definition py_round :: "int \<Rightarrow> int \<Rightarrow> int" where
  "py_round x ndigits =
     (if ndigits \<ge> 0 then x
      else (let p = 10 ^ nat (- ndigits); q = x div p; r = x mod p in
            if 2 * r < p then q * p
            else if 2 * r > p then (q + 1) * p
            else if even q then q * p else (q + 1) * p))"

definition normalize_time_list :: "int list \<Rightarrow> int list" where
  "normalize_time_list time_list =
     (if time_list = [] then []
      else (let min_val = min_list time_list in
            map (\<lambda>t. py_round (t - min_val) 3) time_list))"

section \<open>process_file\<close>

definition getitem :: "row_dict \<Rightarrow> string \<Rightarrow> py_error + cell" where
  "getitem row_dict k = (case row_dict k of None \<Rightarrow> Inl (KeyError k) | Some v \<Rightarrow> Inr v)"

text \<open>The loop over \<open>range(1, 1441)\<close>. Comparing a str or \<open>None\<close> with \<open>0\<close> raises
  TypeError, so \<open>int(...)\<close> is only reached on an int.\<close>

fun minute_loop :: "row_dict \<Rightarrow> int \<Rightarrow> nat list \<Rightarrow> int list \<Rightarrow> py_error + int list" where
  "minute_loop row_dict base_timestamp [] timestamps = Inr timestamps"
| "minute_loop row_dict base_timestamp (minute # ms) timestamps =
     (case row_dict (str_nat minute) of
        None \<Rightarrow> minute_loop row_dict base_timestamp ms timestamps
      | Some (CInt c) \<Rightarrow>
          (if c > 0
           then minute_loop row_dict base_timestamp ms
                  (timestamps @ replicate (nat c) (base_timestamp + int minute))
           else minute_loop row_dict base_timestamp ms timestamps)
      | Some _ \<Rightarrow> Inl TypeError)"

definition row_timestamps :: "row_dict \<Rightarrow> int \<Rightarrow> py_error + int list" where
  "row_timestamps row_dict base_timestamp = minute_loop row_dict base_timestamp [1..<1441] []"

definition process_row ::
  "(string \<Rightarrow> 128 word) \<Rightarrow> int \<Rightarrow> invocations \<times> translation list \<Rightarrow> row_dict
     \<Rightarrow> py_error + invocations \<times> translation list" where
  "process_row md5 base_timestamp acc row_dict =
     (case getitem row_dict ''HashOwner'' of Inl e \<Rightarrow> Inl e | Inr owner \<Rightarrow>
      case getitem row_dict ''HashApp'' of Inl e \<Rightarrow> Inl e | Inr app \<Rightarrow>
      case getitem row_dict ''HashFunction'' of Inl e \<Rightarrow> Inl e | Inr func \<Rightarrow>
      case getitem row_dict ''Trigger'' of Inl e \<Rightarrow> Inl e | Inr trigger \<Rightarrow>
      (let func_id = create_hash_id md5 owner app func;
           file_translations = snd acc @
             [\<lparr>HashOwner = owner, HashApp = app, HashFunction = func, Trigger = trigger,
               original_uuid = combined owner app func, new_hash_uuid = func_id\<rparr>]
       in case row_timestamps row_dict base_timestamp of Inl e \<Rightarrow> Inl e
          | Inr timestamps \<Rightarrow>
              Inr (if timestamps \<noteq> [] then AList.update func_id timestamps (fst acc)
                   else fst acc, file_translations)))"

fun process_rows ::
  "(string \<Rightarrow> 128 word) \<Rightarrow> int \<Rightarrow> invocations \<times> translation list \<Rightarrow> row_dict list
     \<Rightarrow> py_error + invocations \<times> translation list" where
  "process_rows md5 base_timestamp acc [] = Inr acc"
| "process_rows md5 base_timestamp acc (r # rs) =
     (case process_row md5 base_timestamp acc r of Inl e \<Rightarrow> Inl e
      | Inr acc' \<Rightarrow> process_rows md5 base_timestamp acc' rs)"

text \<open>\<open>file\<close> is what \<open>pl.read_csv\<close> gives: an exception, or the rows. The
  \<open>except Exception\<close> turns every error into \<open>({}, [])\<close>.\<close>

definition process_file ::
  "(string \<Rightarrow> 128 word) \<Rightarrow> py_error + row_dict list \<Rightarrow> nat
     \<Rightarrow> invocations \<times> translation list" where
  "process_file md5 file file_idx =
     (case file of Inl e \<Rightarrow> ([], [])
      | Inr row_dicts \<Rightarrow>
          (case process_rows md5 (int file_idx * 24 * 60) ([], []) row_dicts of
             Inl e \<Rightarrow> ([], []) | Inr r \<Rightarrow> r))"

section \<open>process_invocation_data\<close>

fun merge_items :: "invocations \<Rightarrow> (string \<times> int list) list \<Rightarrow> invocations" where
  "merge_items function_invocations [] = function_invocations"
| "merge_items function_invocations ((func_id, timestamps) # items) =
     merge_items
       (case map_of function_invocations func_id of
          Some old \<Rightarrow> AList.update func_id (old @ timestamps) function_invocations
        | None \<Rightarrow> AList.update func_id timestamps function_invocations)
       items"

definition merge_result ::
  "invocations \<times> translation list \<Rightarrow> invocations \<times> translation list
     \<Rightarrow> invocations \<times> translation list" where
  "merge_result acc res = (merge_items (fst acc) (fst res), snd acc @ snd res)"

text \<open>\<open>order\<close> is the order in which \<open>as_completed\<close> yields the futures: a
  permutation of the shard indices, chosen by the scheduler.\<close>

definition collect ::
  "(string \<Rightarrow> 128 word) \<Rightarrow> (py_error + row_dict list) list \<Rightarrow> nat list
     \<Rightarrow> invocations \<times> translation list" where
  "collect md5 files order =
     foldl merge_result ([], [])
       (map (\<lambda>idx. process_file md5 (files ! idx) idx) order)"

text \<open>Lines 141-151. \<open>map_elements\<close> hands each element of the List column
  \<open>time\<close> to the Python function as a \<open>pl.Series\<close>, not as a list. Line 18,
  \<open>if not time_list\<close>, takes the truth value of its argument: of a list, whether it is
  non-empty (\<open>normalize_time_list\<close> above); of a Series, TypeError. \<open>len\<close> of either is
  its length. On a column without rows the function is never called.\<close>

datatype py_seq = PyList "int list" | PlSeries "int list"

definition normalize_time_list_on :: "py_seq \<Rightarrow> py_error + int list" where
  "normalize_time_list_on time_list =
     (case time_list of PyList xs \<Rightarrow> Inr (normalize_time_list xs)
      | PlSeries xs \<Rightarrow> Inl TypeError)"

definition len_on :: "py_seq \<Rightarrow> py_error + int" where
  "len_on s = (case s of PyList xs \<Rightarrow> Inr (int (length xs))
               | PlSeries xs \<Rightarrow> Inr (int (length xs)))"

fun map_elements :: "(py_seq \<Rightarrow> py_error + 'b) \<Rightarrow> int list list \<Rightarrow> py_error + 'b list" where
  "map_elements f [] = Inr []"
| "map_elements f (x # xs) =
     (case f (PlSeries x) of Inl e \<Rightarrow> Inl e
      | Inr y \<Rightarrow> (case map_elements f xs of Inl e \<Rightarrow> Inl e | Inr ys \<Rightarrow> Inr (y # ys)))"

definition with_columns :: "invocations \<Rightarrow> py_error + inv_row list" where
  "with_columns function_invocations =
     (case map_elements normalize_time_list_on (map snd function_invocations) of
        Inl e \<Rightarrow> Inl e
      | Inr time_col \<Rightarrow>
          (case map_elements len_on (map snd function_invocations) of
             Inl e \<Rightarrow> Inl e
           | Inr count_col \<Rightarrow>
               Inr (map (\<lambda>(func_id, t, n). \<lparr>uuid = func_id, time = t, call_count = n\<rparr>)
                      (zip (map fst function_invocations) (zip time_col count_col)))))"

text \<open>Line 154; \<open>sort\<close> is modelled by a stable sort on the negated key.\<close>

definition sort_call_count :: "inv_row list \<Rightarrow> inv_row list" where
  "sort_call_count df = sort_key (\<lambda>r. - call_count r) df"

text \<open>Line 157; \<open>unique\<close> is modelled by \<open>remdups\<close> on the whole record.\<close>

definition translation_df :: "translation list \<Rightarrow> translation list" where
  "translation_df translation_data = remdups translation_data"

text \<open>The run: an error of lines 141-151 leaves the function before either table is
  built.\<close>

definition process_invocation_data ::
  "(string \<Rightarrow> 128 word) \<Rightarrow> (py_error + row_dict list) list \<Rightarrow> nat list
     \<Rightarrow> py_error + inv_row list \<times> translation list" where
  "process_invocation_data md5 files order =
     (case collect md5 files order of (function_invocations, translation_data) \<Rightarrow>
        (case with_columns function_invocations of
           Inl e \<Rightarrow> Inl e
         | Inr df \<Rightarrow> Inr (sort_call_count df, translation_df translation_data)))"

section \<open>Auxiliary notions for the statements\<close>

text \<open>The keys of a dictionary; per key, its timestamps as a multiset (\<open>series\<close> is
  \<open>None\<close> for an absent key), and what an item list adds to a key.\<close>

definition keys :: "invocations \<Rightarrow> string set" where
  "keys d = fst ` set d"

definition bag :: "invocations \<Rightarrow> string \<Rightarrow> int multiset" where
  "bag d k = (case map_of d k of None \<Rightarrow> {#} | Some ts \<Rightarrow> mset ts)"

definition series :: "invocations \<Rightarrow> string \<Rightarrow> int multiset option" where
  "series d k = map_option mset (map_of d k)"

definition items_bag :: "invocations \<Rightarrow> string \<Rightarrow> int multiset" where
  "items_bag items k = sum_list (map (\<lambda>(k', ts). if k' = k then mset ts else {#}) items)"

text \<open>A minute cell the loop accepts (absent or an int), and what it appends for it.\<close>

definition minute_ok :: "row_dict \<Rightarrow> nat \<Rightarrow> bool" where
  "minute_ok row_dict m =
     (case row_dict (str_nat m) of Some (CStr s) \<Rightarrow> False | Some CNull \<Rightarrow> False | _ \<Rightarrow> True)"

definition expand :: "row_dict \<Rightarrow> int \<Rightarrow> nat \<Rightarrow> int list" where
  "expand row_dict base_timestamp m =
     (case row_dict (str_nat m) of
        Some (CInt c) \<Rightarrow> replicate (nat c) (base_timestamp + int m)
      | _ \<Rightarrow> [])"

text \<open>A well-formed row: the four identity columns as strings and all 1440 minute columns
  as ints, \<open>v m\<close> in column \<open>str m\<close>. The rows \<open>row_a\<close>, \<open>row_b\<close>, \<open>row_z\<close> are of the
  triple (o1, a1, f1): count 2 in minute 1, count 1 in minute 2, and all zero.\<close>

definition minute_cols :: "(nat \<Rightarrow> int) \<Rightarrow> row_dict" where
  "minute_cols v = map_of (map (\<lambda>m. (str_nat m, CInt (v m))) [1..<1441])"

definition mk_row :: "string \<Rightarrow> string \<Rightarrow> string \<Rightarrow> string \<Rightarrow> (nat \<Rightarrow> int) \<Rightarrow> row_dict" where
  "mk_row ow ap fu tr v =
     (minute_cols v)(''HashOwner'' \<mapsto> CStr ow, ''HashApp'' \<mapsto> CStr ap,
                     ''HashFunction'' \<mapsto> CStr fu, ''Trigger'' \<mapsto> CStr tr)"

definition only_at :: "nat \<Rightarrow> int \<Rightarrow> nat \<Rightarrow> int" where
  "only_at m c = (\<lambda>k. if k = m then c else 0)"

text \<open>The sum of the minute-count fields of a row, as the specification counts them.\<close>

definition minute_total :: "row_dict \<Rightarrow> int" where
  "minute_total row_dict =
     sum_list (map (\<lambda>m. case row_dict (str_nat m) of Some (CInt c) \<Rightarrow> c | _ \<Rightarrow> 0) [1..<1441])"

definition row_a :: row_dict where
  "row_a = mk_row ''o1'' ''a1'' ''f1'' ''http'' (only_at 1 2)"

definition row_b :: row_dict where
  "row_b = mk_row ''o1'' ''a1'' ''f1'' ''http'' (only_at 2 1)"

definition row_z :: row_dict where
  "row_z = mk_row ''o1'' ''a1'' ''f1'' ''http'' (\<lambda>k. 0)"

text \<open>The \<open>except\<close> branch of process_file is taken: the read or a row raised.\<close>

definition decode_raises :: "(string \<Rightarrow> 128 word) \<Rightarrow> py_error + row_dict list \<Rightarrow> nat \<Rightarrow> bool" where
  "decode_raises md5 file file_idx =
     (case file of Inl e \<Rightarrow> True
      | Inr row_dicts \<Rightarrow> isl (process_rows md5 (int file_idx * 24 * 60) ([], []) row_dicts))"

text \<open>The identity of a row (when it has the three columns), a row whose 1440 counts are
  all zero, and a row that stores a list under identity \<open>k\<close>.\<close>

definition row_func_id :: "(string \<Rightarrow> 128 word) \<Rightarrow> row_dict \<Rightarrow> string option" where
  "row_func_id md5 row_dict =
     (case (row_dict ''HashOwner'', row_dict ''HashApp'', row_dict ''HashFunction'') of
        (Some ow, Some ap, Some fu) \<Rightarrow> Some (create_hash_id md5 ow ap fu)
      | _ \<Rightarrow> None)"

definition all_zero :: "row_dict \<Rightarrow> bool" where
  "all_zero row_dict = list_all (\<lambda>m. row_dict (str_nat m) = Some (CInt 0)) [1..<1441]"

definition writes :: "(string \<Rightarrow> 128 word) \<Rightarrow> int \<Rightarrow> string \<Rightarrow> row_dict \<Rightarrow> bool" where
  "writes md5 base k row = (row_func_id md5 row = Some k \<and> row_timestamps row base \<noteq> Inr [])"

section \<open>Normalization\<close>




section \<open>Identity\<close>

lemma hex_digit_hex: "hex_digit n \<in> set ''0123456789abcdef''"
  unfolding hex_digit_def by (rule nth_mem) simp

lemma length_hexdigest: "length (hexdigest d) = 32"
  by (simp add: hexdigest_def)

lemma set_hexdigest: "set (hexdigest d) \<subseteq> set ''0123456789abcdef''"
  unfolding hexdigest_def using hex_digit_hex by auto

text \<open>C3: create_hash_id is a function of its three arguments alone (it is a HOL
  function of them and of the hash), returns exactly 10 hexadecimal characters for any
  three cells, and has no error result; three empty strings hash the message "__".\<close>

theorem create_hash_id_total_hex10:
  "length (create_hash_id md5 owner app func) = 10 \<and>
   set (create_hash_id md5 owner app func) \<subseteq> set ''0123456789abcdef'' \<and>
   create_hash_id md5 (CStr []) (CStr []) (CStr []) = take 10 (hexdigest (md5 ''__''))"
proof -
  have "set (take 10 (hexdigest d)) \<subseteq> set ''0123456789abcdef''" for d
    using set_take_subset set_hexdigest by (rule subset_trans)
  then show ?thesis
    by (simp add: create_hash_id_def length_hexdigest combined_def fmt_def)
qed

text \<open>C10: the identifier and the original key depend only on the underscore-joined
  string, so two triples with the same joined string get the same identifier and the
  same original key, whatever the hash.\<close>

theorem create_hash_id_joined_only:
  "combined owner app func = combined owner' app' func' \<Longrightarrow>
   create_hash_id md5 owner app func = create_hash_id md5 owner' app' func'"
  by (simp add: create_hash_id_def)

theorem create_hash_id_joined_only_witness:
  "(\<forall>md5. create_hash_id md5 (CStr ''a'') (CStr ''b_c'') (CStr ''d'')
          = create_hash_id md5 (CStr ''a_b'') (CStr ''c'') (CStr ''d'')) \<and>
   combined (CStr ''a'') (CStr ''b_c'') (CStr ''d'') = ''a_b_c_d'' \<and>
   combined (CStr ''a_b'') (CStr ''c'') (CStr ''d'') = ''a_b_c_d'' \<and>
   (CStr ''a'', CStr ''b_c'', CStr ''d'') \<noteq> (CStr ''a_b'', CStr ''c'', CStr ''d'')"
proof -
  have j: "combined (CStr ''a'') (CStr ''b_c'') (CStr ''d'')
           = combined (CStr ''a_b'') (CStr ''c'') (CStr ''d'')"
    by (simp add: combined_def fmt_def)
  show ?thesis
    using create_hash_id_joined_only [OF j] by (simp add: combined_def fmt_def)
qed

section \<open>Lemmas on merging, str and the minute loop\<close>

lemma series_keys_bag: "series d k = (if k \<in> keys d then Some (bag d k) else None)"
  by (cases "map_of d k") (auto simp: series_def keys_def bag_def map_of_eq_None_iff [symmetric])

lemma keys_merge_items: "keys (merge_items acc items) = keys acc \<union> keys items"
  by (induction acc items rule: merge_items.induct)
     (auto simp: keys_def AList.dom_update split: option.splits)

lemma bag_merge_items: "bag (merge_items acc items) k = bag acc k + items_bag items k"
proof (induction acc items rule: merge_items.induct)
  case (1 acc)
  then show ?case by (simp add: items_bag_def)
next
  case (2 acc func_id timestamps items)
  then show ?case
    by (auto simp: items_bag_def bag_def AList.update_conv' split: option.splits)
qed

lemma keys_foldl_merge:
  "keys (fst (foldl merge_result acc rs)) = keys (fst acc) \<union> (\<Union>r\<in>set rs. keys (fst r))"
  by (induction rs arbitrary: acc) (auto simp: merge_result_def keys_merge_items)

lemma bag_foldl_merge:
  "bag (fst (foldl merge_result acc rs)) k
   = bag (fst acc) k + sum_list (map (\<lambda>r. items_bag (fst r) k) rs)"
  by (induction rs arbitrary: acc) (simp_all add: merge_result_def bag_merge_items add.assoc)

lemma snd_foldl_merge:
  "snd (foldl merge_result acc rs) = snd acc @ concat (map snd rs)"
  by (induction rs arbitrary: acc) (simp_all add: merge_result_def)

lemma foldl_merge_perm:
  assumes "mset rs = mset rs'"
  shows "series (fst (foldl merge_result acc rs)) k = series (fst (foldl merge_result acc rs')) k"
proof -
  have s: "set rs = set rs'" using assms by (rule mset_eq_setD)
  have "sum_mset (mset (map (\<lambda>r. items_bag (fst r) k) rs))
        = sum_mset (mset (map (\<lambda>r. items_bag (fst r) k) rs'))"
    using assms by (metis mset_map)
  then have b: "sum_list (map (\<lambda>r. items_bag (fst r) k) rs)
        = sum_list (map (\<lambda>r. items_bag (fst r) k) rs')"
    by (simp only: sum_mset_sum_list)
  show ?thesis
    by (simp add: series_keys_bag keys_foldl_merge bag_foldl_merge s b)
qed

lemma str_nat_nonempty: "str_nat n \<noteq> []"
  by (subst str_nat.simps) simp

lemma str_nat_digits: "set (str_nat n) \<subseteq> char_of ` {48..<58::nat}"
proof (induction n rule: str_nat.induct)
  case (1 n)
  show ?case
  proof (cases "n < 10")
    case True
    then show ?thesis by (subst str_nat.simps) auto
  next
    case False
    have "n mod 10 < 10" by simp
    then have "char_of (48 + n mod 10) \<in> char_of ` {48..<58::nat}" by auto
    then show ?thesis using False 1 by (subst str_nat.simps) auto
  qed
qed

lemma str_nat_inj: "str_nat m = str_nat n \<Longrightarrow> m = n"
proof (induction m arbitrary: n rule: str_nat.induct)
  case (1 m)
  show ?case
  proof (cases "m < 10")
    case m: True
    show ?thesis
    proof (cases "n < 10")
      case True
      have "[char_of (48 + m)] = [char_of (48 + n)]"
        using 1(2) m True by (subst (asm) str_nat.simps, subst (asm) (2) str_nat.simps) simp
      then have "(48 + m) mod 256 = (48 + n) mod 256" by simp
      then show ?thesis using m True by simp
    next
      case False
      have "[char_of (48 + m)] = str_nat (n div 10) @ [char_of (48 + n mod 10)]"
        using 1(2) m False by (subst (asm) str_nat.simps, subst (asm) (2) str_nat.simps) simp
      then show ?thesis using str_nat_nonempty [of "n div 10"] by (simp add: Cons_eq_append_conv)
    qed
  next
    case m: False
    show ?thesis
    proof (cases "n < 10")
      case True
      have "str_nat (m div 10) @ [char_of (48 + m mod 10)] = [char_of (48 + n)]"
        using 1(2) m True by (subst (asm) str_nat.simps, subst (asm) (2) str_nat.simps) simp
      then show ?thesis using str_nat_nonempty [of "m div 10"] by (simp add: append_eq_Cons_conv)
    next
      case False
      have e: "str_nat (m div 10) @ [char_of (48 + m mod 10)]
            = str_nat (n div 10) @ [char_of (48 + n mod 10)]"
        using 1(2) m False by (subst (asm) str_nat.simps, subst (asm) (2) str_nat.simps) simp
      then have a: "m div 10 = n div 10" using 1(1) m by simp
      have "(48 + m mod 10) mod 256 = (48 + n mod 10) mod 256" using e by simp
      moreover have "m mod 10 < 10" "n mod 10 < 10" by simp_all
      ultimately have b: "m mod 10 = n mod 10" by simp
      show ?thesis using a b by (metis div_mult_mod_eq)
    qed
  qed
qed

lemma str_nat_1: "str_nat 1 = ''1''"
  by code_simp

lemma str_nat_2: "str_nat 2 = ''2''"
  by code_simp

lemma str_nat_1440: "str_nat 1440 = ''1440''"
  by code_simp

lemma not_digit: "58 \<le> (of_char c :: nat) \<Longrightarrow> c \<notin> char_of ` {48..<58::nat}"
proof
  assume a: "58 \<le> (of_char c :: nat)" and "c \<in> char_of ` {48..<58::nat}"
  then obtain x :: nat where x: "c = char_of x" "48 \<le> x" "x < 58" by auto
  have "(of_char c :: nat) = x mod 256" unfolding x(1) by (rule of_char_of)
  then show False using a x by simp
qed

lemma digit_H: "CHR ''H'' \<notin> char_of ` {48..<58::nat}"
  by (rule not_digit) simp

lemma digit_T: "CHR ''T'' \<notin> char_of ` {48..<58::nat}"
  by (rule not_digit) simp

lemma str_nat_not_alpha:
  "str_nat m \<noteq> ''HashOwner''" "str_nat m \<noteq> ''HashApp''"
  "str_nat m \<noteq> ''HashFunction''" "str_nat m \<noteq> ''Trigger''"
proof -
  have "CHR ''H'' \<notin> set (str_nat m)" "CHR ''T'' \<notin> set (str_nat m)"
    using str_nat_digits [of m] digit_H digit_T by blast+
  then show "str_nat m \<noteq> ''HashOwner''" "str_nat m \<noteq> ''HashApp''"
    "str_nat m \<noteq> ''HashFunction''" "str_nat m \<noteq> ''Trigger''"
    by auto
qed

lemma minute_loop_eq:
  "minute_loop row base ms ts =
     (if list_all (minute_ok row) ms then Inr (ts @ concat (map (expand row base) ms))
      else Inl TypeError)"
  by (induction ms arbitrary: ts)
     (auto simp: minute_ok_def expand_def split: option.splits cell.splits)

lemma map_of_str_nat:
  "map_of (map (\<lambda>m. (str_nat m, f m)) ms) (str_nat k) = (if k \<in> set ms then Some (f k) else None)"
  by (induction ms) (auto dest: str_nat_inj)

lemma minute_cols_apply:
  "minute_cols v (str_nat m) = (if 1 \<le> m \<and> m < 1441 then Some (CInt (v m)) else None)"
  unfolding minute_cols_def map_of_str_nat by simp

lemma mk_row_minute:
  "mk_row ow ap fu tr v (str_nat m) = (if 1 \<le> m \<and> m < 1441 then Some (CInt (v m)) else None)"
  by (simp add: mk_row_def str_nat_not_alpha minute_cols_apply)

lemma mk_row_getitem:
  "getitem (mk_row ow ap fu tr v) ''HashOwner'' = Inr (CStr ow)"
  "getitem (mk_row ow ap fu tr v) ''HashApp'' = Inr (CStr ap)"
  "getitem (mk_row ow ap fu tr v) ''HashFunction'' = Inr (CStr fu)"
  "getitem (mk_row ow ap fu tr v) ''Trigger'' = Inr (CStr tr)"
  by (simp_all add: getitem_def mk_row_def)

lemma row_timestamps_mk_row:
  "row_timestamps (mk_row ow ap fu tr v) base
   = Inr (concat (map (\<lambda>m. replicate (nat (v m)) (base + int m)) [1..<1441]))"
proof -
  have ok: "list_all (minute_ok (mk_row ow ap fu tr v)) [1..<1441]"
    by (simp add: list_all_iff minute_ok_def mk_row_minute)
  have m: "map (expand (mk_row ow ap fu tr v) base) [1..<1441]
        = map (\<lambda>m. replicate (nat (v m)) (base + int m)) [1..<1441]"
    by (rule map_cong) (simp_all add: expand_def mk_row_minute)
  show ?thesis
    unfolding row_timestamps_def minute_loop_eq m using ok by (simp only: if_True append_Nil)
qed

lemma concat_map_single:
  "distinct xs \<Longrightarrow> x \<in> set xs \<Longrightarrow> concat (map (\<lambda>k. if k = x then f k else []) xs) = f x"
proof (induction xs)
  case Nil
  then show ?case by simp
next
  case (Cons a xs)
  have z: "x \<notin> set ys \<Longrightarrow> concat (map (\<lambda>k. if k = x then f k else []) ys) = []" for ys
    by (induction ys) auto
  show ?case using Cons z [of xs] by auto
qed

lemma sum_list_single:
  "distinct xs \<Longrightarrow> x \<in> set xs \<Longrightarrow> sum_list (map (\<lambda>k. if k = x then c else (0::int)) xs) = c"
proof (induction xs)
  case Nil
  then show ?case by simp
next
  case (Cons a xs)
  have z: "x \<notin> set ys \<Longrightarrow> sum_list (map (\<lambda>k. if k = x then c else (0::int)) ys) = 0" for ys
    by (induction ys) auto
  show ?case using Cons z [of xs] by auto
qed

lemma expansion_only_at:
  assumes "1 \<le> m" "m < 1441"
  shows "concat (map (\<lambda>k. replicate (nat (only_at m c k)) (base + int k)) [1..<1441])
         = replicate (nat c) (base + int m)"
proof -
  have "(\<lambda>k. replicate (nat (only_at m c k)) (base + int k))
        = (\<lambda>k. if k = m then replicate (nat c) (base + int k) else [])"
    by (auto simp: only_at_def)
  then show ?thesis using assms concat_map_single [of "[1..<1441]" m] by simp
qed

lemma row_timestamps_only_at:
  "1 \<le> m \<Longrightarrow> m < 1441 \<Longrightarrow>
   row_timestamps (mk_row ow ap fu tr (only_at m c)) base = Inr (replicate (nat c) (base + int m))"
  by (simp only: row_timestamps_mk_row expansion_only_at)

lemma row_timestamps_zero:
  "row_timestamps (mk_row ow ap fu tr (\<lambda>k. 0)) base = Inr []"
  by (simp add: row_timestamps_mk_row)

lemma minute_total_mk_row:
  "minute_total (mk_row ow ap fu tr v) = sum_list (map v [1..<1441])"
proof -
  have "map (\<lambda>m. case mk_row ow ap fu tr v (str_nat m) of Some (CInt c) \<Rightarrow> c | _ \<Rightarrow> 0) [1..<1441]
        = map v [1..<1441]"
    by (rule map_cong) (simp_all add: mk_row_minute)
  then show ?thesis by (simp only: minute_total_def)
qed

lemma minute_total_only_at:
  "1 \<le> m \<Longrightarrow> m < 1441 \<Longrightarrow> minute_total (mk_row ow ap fu tr (only_at m c)) = c"
  unfolding minute_total_mk_row only_at_def using sum_list_single [of "[1..<1441]" m c] by simp

lemma process_row_mk_row:
  "process_row md5 base acc (mk_row ow ap fu tr v) =
     (let func_id = create_hash_id md5 (CStr ow) (CStr ap) (CStr fu);
          ts = concat (map (\<lambda>m. replicate (nat (v m)) (base + int m)) [1..<1441])
      in Inr (if ts \<noteq> [] then AList.update func_id ts (fst acc) else fst acc,
              snd acc @ [\<lparr>HashOwner = CStr ow, HashApp = CStr ap, HashFunction = CStr fu,
                          Trigger = CStr tr, original_uuid = combined (CStr ow) (CStr ap) (CStr fu),
                          new_hash_uuid = func_id\<rparr>]))"
  by (simp only: process_row_def mk_row_getitem row_timestamps_mk_row Let_def sum.case)

lemma process_row_only_at:
  assumes "1 \<le> m" "m < 1441" "0 < c"
  shows "process_row md5 base acc (mk_row ow ap fu tr (only_at m c)) =
     Inr (AList.update (create_hash_id md5 (CStr ow) (CStr ap) (CStr fu))
            (replicate (nat c) (base + int m)) (fst acc),
          snd acc @ [\<lparr>HashOwner = CStr ow, HashApp = CStr ap, HashFunction = CStr fu,
                      Trigger = CStr tr, original_uuid = combined (CStr ow) (CStr ap) (CStr fu),
                      new_hash_uuid = create_hash_id md5 (CStr ow) (CStr ap) (CStr fu)\<rparr>])"
  unfolding process_row_mk_row Let_def expansion_only_at [OF assms(1,2)]
  using assms(3) by simp

lemma process_row_zero:
  "process_row md5 base acc (mk_row ow ap fu tr (\<lambda>k. 0)) =
     Inr (fst acc,
          snd acc @ [\<lparr>HashOwner = CStr ow, HashApp = CStr ap, HashFunction = CStr fu,
                      Trigger = CStr tr, original_uuid = combined (CStr ow) (CStr ap) (CStr fu),
                      new_hash_uuid = create_hash_id md5 (CStr ow) (CStr ap) (CStr fu)\<rparr>])"
  by (simp add: process_row_mk_row Let_def)

lemma merge_result_empty: "merge_result acc ([], []) = acc"
  by (simp add: merge_result_def)

lemma process_file_raises: "decode_raises md5 file idx \<Longrightarrow> process_file md5 file idx = ([], [])"
  by (auto simp: decode_raises_def process_file_def isl_def split: sum.splits)

lemma foldl_merge_skip:
  "f j = ([], []) \<Longrightarrow>
   foldl merge_result acc (map f order) = foldl merge_result acc (map f (filter (\<lambda>i. i \<noteq> j) order))"
  by (induction order arbitrary: acc) (simp_all add: merge_result_empty)

lemma collect_skip:
  assumes "decode_raises md5 (files ! j) j"
  shows "collect md5 files order = collect md5 files (filter (\<lambda>i. i \<noteq> j) order)"
  unfolding collect_def
  by (rule foldl_merge_skip) (rule process_file_raises [OF assms])

lemma all_zero_timestamps: "all_zero row \<Longrightarrow> row_timestamps row base = Inr []"
proof -
  assume a: "all_zero row"
  have ok: "list_all (minute_ok row) [1..<1441]"
    using a by (auto simp: all_zero_def list_all_iff minute_ok_def)
  have "\<And>m. m \<in> set [1..<1441] \<Longrightarrow> expand row base m = []"
    using a by (auto simp: all_zero_def list_all_iff expand_def)
  then have "concat (map (expand row base) [1..<1441]) = []"
    by (simp only: concat_eq_Nil_conv set_map) blast
  then show ?thesis
    unfolding row_timestamps_def minute_loop_eq using ok by (simp only: if_True append_Nil)
qed

lemma process_row_Inr:
  "process_row md5 base acc row = Inr acc' \<Longrightarrow>
   \<exists>fid ts t. row_func_id md5 row = Some fid \<and> row_timestamps row base = Inr ts \<and>
     fst acc' = (if ts \<noteq> [] then AList.update fid ts (fst acc) else fst acc) \<and>
     snd acc' = snd acc @ [t] \<and> new_hash_uuid t = fid"
proof -
  assume p: "process_row md5 base acc row = Inr acc'"
  obtain ow where ow: "row ''HashOwner'' = Some ow"
    using p by (cases "row ''HashOwner''") (simp_all add: process_row_def getitem_def)
  obtain ap where ap: "row ''HashApp'' = Some ap"
    using p ow by (cases "row ''HashApp''") (simp_all add: process_row_def getitem_def)
  obtain fu where fu: "row ''HashFunction'' = Some fu"
    using p ow ap by (cases "row ''HashFunction''") (simp_all add: process_row_def getitem_def)
  obtain tr where tr: "row ''Trigger'' = Some tr"
    using p ow ap fu by (cases "row ''Trigger''") (simp_all add: process_row_def getitem_def)
  obtain ts where ts: "row_timestamps row base = Inr ts"
    using p ow ap fu tr
    by (cases "row_timestamps row base") (simp_all add: process_row_def getitem_def Let_def)
  have a: "acc' = (if ts \<noteq> [] then AList.update (create_hash_id md5 ow ap fu) ts (fst acc)
                   else fst acc,
                snd acc @ [\<lparr>HashOwner = ow, HashApp = ap, HashFunction = fu, Trigger = tr,
                   original_uuid = combined ow ap fu,
                   new_hash_uuid = create_hash_id md5 ow ap fu\<rparr>])"
    using p ow ap fu tr ts by (simp add: process_row_def getitem_def Let_def)
  have "row_func_id md5 row = Some (create_hash_id md5 ow ap fu)"
    by (simp add: row_func_id_def ow ap fu)
  then show ?thesis using ts a by simp
qed

lemma length_process_rows:
  "process_rows md5 base acc rows = Inr acc' \<Longrightarrow> length (snd acc') = length (snd acc) + length rows"
proof (induction rows arbitrary: acc)
  case Nil
  then show ?case by simp
next
  case (Cons r rs)
  then obtain a1 where a1: "process_row md5 base acc r = Inr a1"
    and rest: "process_rows md5 base a1 rs = Inr acc'"
    by (auto split: sum.splits)
  from process_row_Inr [OF a1] have "length (snd a1) = Suc (length (snd acc))" by auto
  with Cons.IH [OF rest] show ?case by simp
qed

lemma keys_process_rows:
  "process_rows md5 base acc rows = Inr acc' \<Longrightarrow> k \<in> keys (fst acc') \<Longrightarrow>
   k \<in> keys (fst acc) \<or>
   (\<exists>row\<in>set rows. row_func_id md5 row = Some k \<and> row_timestamps row base \<noteq> Inr [])"
proof (induction rows arbitrary: acc)
  case Nil
  then show ?case by simp
next
  case (Cons r rs)
  then obtain a1 where a1: "process_row md5 base acc r = Inr a1"
    and rest: "process_rows md5 base a1 rs = Inr acc'"
    by (auto split: sum.splits)
  from process_row_Inr [OF a1] obtain fid ts where
    f: "row_func_id md5 r = Some fid" "row_timestamps r base = Inr ts"
       "fst a1 = (if ts \<noteq> [] then AList.update fid ts (fst acc) else fst acc)"
    by blast
  from Cons.IH [OF rest Cons.prems(2)] show ?case
  proof
    assume "k \<in> keys (fst a1)"
    then show ?thesis using f
      by (auto simp: keys_def AList.dom_update split: if_splits)
  next
    assume "\<exists>row\<in>set rs. row_func_id md5 row = Some k \<and> row_timestamps row base \<noteq> Inr []"
    then show ?thesis by auto
  qed
qed

lemma keys_collect:
  "keys (fst (collect md5 files order))
   = (\<Union>idx\<in>set order. keys (fst (process_file md5 (files ! idx) idx)))"
  unfolding collect_def keys_foldl_merge by (simp add: keys_def)

lemma map_elements_normalize:
  "map_elements normalize_time_list_on xs = (if xs = [] then Inr [] else Inl TypeError)"
  by (cases xs) (simp_all add: normalize_time_list_on_def)

lemma with_columns_eq:
  "with_columns fi = (if fi = [] then Inr [] else Inl TypeError)"
  by (simp add: with_columns_def map_elements_normalize)

lemma process_invocation_data_eq:
  "process_invocation_data md5 files order =
     (if fst (collect md5 files order) = []
      then Inr ([], translation_df (snd (collect md5 files order)))
      else Inl TypeError)"
  by (cases "collect md5 files order")
     (simp add: process_invocation_data_def with_columns_eq sort_call_count_def)


lemma mset_snd_foldl_merge_perm:
  assumes "mset rs = mset rs'"
  shows "mset (snd (foldl merge_result acc rs)) = mset (snd (foldl merge_result acc rs'))"
proof -
  have "sum_mset (mset (map (\<lambda>r. mset (snd r)) rs)) = sum_mset (mset (map (\<lambda>r. mset (snd r)) rs'))"
    using assms by (metis mset_map)
  then have "sum_list (map (\<lambda>r. mset (snd r)) rs) = sum_list (map (\<lambda>r. mset (snd r)) rs')"
    by (simp only: sum_mset_sum_list)
  then show ?thesis
    by (simp add: snd_foldl_merge mset_concat comp_def)
qed

lemma records_process_rows:
  "process_rows md5 base acc rows = Inr acc' \<Longrightarrow>
   map (\<lambda>t. Some (new_hash_uuid t)) (snd acc')
   = map (\<lambda>t. Some (new_hash_uuid t)) (snd acc) @ map (row_func_id md5) rows"
proof (induction rows arbitrary: acc)
  case Nil
  then show ?case by simp
next
  case (Cons r rs)
  then obtain a1 where a1: "process_row md5 base acc r = Inr a1"
    and rest: "process_rows md5 base a1 rs = Inr acc'"
    by (auto split: sum.splits)
  from process_row_Inr [OF a1] obtain t where
    "snd a1 = snd acc @ [t]" "row_func_id md5 r = Some (new_hash_uuid t)" by auto
  with Cons.IH [OF rest] show ?case by simp
qed

lemma all_zero_mk_row: "all_zero (mk_row ow ap fu tr (\<lambda>k. 0))"
  by (simp add: all_zero_def list_all_iff mk_row_minute)

lemma row_func_id_mk_row:
  "row_func_id md5 (mk_row ow ap fu tr v) = Some (create_hash_id md5 (CStr ow) (CStr ap) (CStr fu))"
  by (simp add: row_func_id_def mk_row_def)

lemma zero_rows_no_key:
  assumes dec: "process_rows md5 base ([], []) rows = Inr (fi, tr)"
    and zero: "\<forall>row\<in>set rows. row_func_id md5 row = Some k \<longrightarrow> all_zero row"
  shows "k \<notin> keys fi"
proof
  assume "k \<in> keys fi"
  with keys_process_rows [OF dec, of k] obtain row where
    r: "row \<in> set rows" "row_func_id md5 row = Some k" "row_timestamps row base \<noteq> Inr []"
    by (auto simp: keys_def)
  with zero have "all_zero row" by blast
  then show False using r(3) all_zero_timestamps by blast
qed

section \<open>Merge\<close>

text \<open>C5: merging per-shard results is independent of the completion order up to the
  order inside each list: for two orders of the same results the global map has the same
  keys and, per identity, the same multiset of timestamps (and the accumulated translation
  records are the same multiset).\<close>

theorem merge_completion_order_irrelevant:
  assumes "mset rs = mset rs'" and "mset order = mset order'"
  shows "series (fst (foldl merge_result ([], []) rs)) k
           = series (fst (foldl merge_result ([], []) rs')) k \<and>
         mset (snd (foldl merge_result ([], []) rs)) = mset (snd (foldl merge_result ([], []) rs')) \<and>
         series (fst (collect md5 files order)) k = series (fst (collect md5 files order')) k \<and>
         mset (snd (collect md5 files order)) = mset (snd (collect md5 files order'))"
proof -
  have m: "mset (map (\<lambda>idx. process_file md5 (files ! idx) idx) order)
         = mset (map (\<lambda>idx. process_file md5 (files ! idx) idx) order')"
    using assms(2) by (metis mset_map)
  show ?thesis
    unfolding collect_def
    using foldl_merge_perm [OF assms(1)] mset_snd_foldl_merge_perm [OF assms(1)]
      foldl_merge_perm [OF m] mset_snd_foldl_merge_perm [OF m]
    by blast
qed

theorem merge_completion_order_irrelevant_witness:
  "mset [([(''x'', [1])], []), ([(''x'', [2]), (''y'', [3])], [])]
     = mset [([(''x'', [2]), (''y'', [3])], []), ([(''x'', [1 :: int])], ([] :: translation list))] \<and>
   mset [0, 1 :: nat] = mset [1, 0] \<and>
   series (fst (foldl merge_result ([], []) [([(''x'', [1])], []), ([(''x'', [2]), (''y'', [3])], [])])) ''x''
     = series (fst (foldl merge_result ([], []) [([(''x'', [2]), (''y'', [3])], []), ([(''x'', [1])], [])])) ''x'' \<and>
   fst (foldl merge_result ([], []) [([(''x'', [1])], []), ([(''x'', [2]), (''y'', [3])], [])])
     = [(''x'', [1, 2]), (''y'', [3])] \<and>
   fst (foldl merge_result ([], []) [([(''x'', [2]), (''y'', [3])], []), ([(''x'', [1])], [])])
     = [(''x'', [2, 1]), (''y'', [3])]"
proof -
  have a: "mset [([(''x'', [1])], []), ([(''x'', [2]), (''y'', [3])], [])]
     = mset [([(''x'', [2]), (''y'', [3])], []), ([(''x'', [1 :: int])], ([] :: translation list))]"
    by simp
  have b: "mset [0, 1 :: nat] = mset [1, 0]" by simp
  show ?thesis
    using a b merge_completion_order_irrelevant [OF a b, of "''x''" "\<lambda>_. 0" "[]"]
    by (simp add: merge_result_def)
qed

section \<open>Concrete runs\<close>

lemma process_file_row_z:
  "process_file md5 (Inr [row_z]) idx = ([], [\<lparr>HashOwner = CStr ''o1'', HashApp = CStr ''a1'', HashFunction = CStr ''f1'',
      Trigger = CStr ''http'', original_uuid = combined (CStr ''o1'') (CStr ''a1'') (CStr ''f1''),
      new_hash_uuid = create_hash_id md5 (CStr ''o1'') (CStr ''a1'') (CStr ''f1'')\<rparr>])"
  by (simp add: process_file_def row_z_def process_row_zero)

lemma process_file_row_a:
  "process_file md5 (Inr [row_a]) idx
   = ([(create_hash_id md5 (CStr ''o1'') (CStr ''a1'') (CStr ''f1''),
        [int idx * 1440 + 1, int idx * 1440 + 1])], [\<lparr>HashOwner = CStr ''o1'', HashApp = CStr ''a1'', HashFunction = CStr ''f1'',
      Trigger = CStr ''http'', original_uuid = combined (CStr ''o1'') (CStr ''a1'') (CStr ''f1''),
      new_hash_uuid = create_hash_id md5 (CStr ''o1'') (CStr ''a1'') (CStr ''f1'')\<rparr>])"
  by (simp add: process_file_def row_a_def process_row_only_at numeral_2_eq_2)

lemma process_file_row_a_row_b:
  "process_file md5 (Inr [row_a, row_b]) 0
   = ([(create_hash_id md5 (CStr ''o1'') (CStr ''a1'') (CStr ''f1''), [2])], [\<lparr>HashOwner = CStr ''o1'', HashApp = CStr ''a1'', HashFunction = CStr ''f1'',
      Trigger = CStr ''http'', original_uuid = combined (CStr ''o1'') (CStr ''a1'') (CStr ''f1''),
      new_hash_uuid = create_hash_id md5 (CStr ''o1'') (CStr ''a1'') (CStr ''f1'')\<rparr>, \<lparr>HashOwner = CStr ''o1'', HashApp = CStr ''a1'', HashFunction = CStr ''f1'',
      Trigger = CStr ''http'', original_uuid = combined (CStr ''o1'') (CStr ''a1'') (CStr ''f1''),
      new_hash_uuid = create_hash_id md5 (CStr ''o1'') (CStr ''a1'') (CStr ''f1'')\<rparr>])"
  by (simp add: process_file_def row_a_def row_b_def process_row_only_at numeral_2_eq_2)

lemma run_row_z:
  "process_invocation_data md5 [Inr [row_z]] [0] = Inr ([], [\<lparr>HashOwner = CStr ''o1'', HashApp = CStr ''a1'', HashFunction = CStr ''f1'',
      Trigger = CStr ''http'', original_uuid = combined (CStr ''o1'') (CStr ''a1'') (CStr ''f1''),
      new_hash_uuid = create_hash_id md5 (CStr ''o1'') (CStr ''a1'') (CStr ''f1'')\<rparr>])"
  by (simp add: process_invocation_data_eq collect_def merge_result_def process_file_row_z
        translation_df_def)

lemma run_row_z_twice:
  "collect md5 [Inr [row_z], Inr [row_z]] [0, 1] = ([], [\<lparr>HashOwner = CStr ''o1'', HashApp = CStr ''a1'', HashFunction = CStr ''f1'',
      Trigger = CStr ''http'', original_uuid = combined (CStr ''o1'') (CStr ''a1'') (CStr ''f1''),
      new_hash_uuid = create_hash_id md5 (CStr ''o1'') (CStr ''a1'') (CStr ''f1'')\<rparr>, \<lparr>HashOwner = CStr ''o1'', HashApp = CStr ''a1'', HashFunction = CStr ''f1'',
      Trigger = CStr ''http'', original_uuid = combined (CStr ''o1'') (CStr ''a1'') (CStr ''f1''),
      new_hash_uuid = create_hash_id md5 (CStr ''o1'') (CStr ''a1'') (CStr ''f1'')\<rparr>])"
  "process_invocation_data md5 [Inr [row_z], Inr [row_z]] [0, 1] = Inr ([], [\<lparr>HashOwner = CStr ''o1'', HashApp = CStr ''a1'', HashFunction = CStr ''f1'',
      Trigger = CStr ''http'', original_uuid = combined (CStr ''o1'') (CStr ''a1'') (CStr ''f1''),
      new_hash_uuid = create_hash_id md5 (CStr ''o1'') (CStr ''a1'') (CStr ''f1'')\<rparr>])"
  by (simp_all add: process_invocation_data_eq collect_def merge_result_def process_file_row_z
        translation_df_def)

section \<open>Failure of a shard\<close>

text \<open>A shard whose decoding raises (the read fails, or a row raises) yields the empty
  map and the empty record list; merging it changes nothing, so the run does what it does
  when that shard is left out of the merge, the other shards keeping their indices.\<close>

lemma failed_shard_skipped:
  assumes "decode_raises md5 (files ! j) j"
  shows "process_file md5 (files ! j) j = ([], []) \<and>
         merge_result acc (process_file md5 (files ! j) j) = acc \<and>
         collect md5 files order = collect md5 files (filter (\<lambda>i. i \<noteq> j) order) \<and>
         process_invocation_data md5 files order
           = process_invocation_data md5 files (filter (\<lambda>i. i \<noteq> j) order)"
  using process_file_raises [OF assms] collect_skip [OF assms, of order]
  by (simp add: merge_result_empty process_invocation_data_def)

text \<open>C6 at two shards, the first unreadable, the second with one row that has two
  invocations in minute 1: the failed shard yields the empty map and list, the merge is
  that of the second shard alone, and the run does not complete: it raises TypeError in
  lines 148-151, where \<open>normalize_time_list\<close> is applied to a Series.\<close>

theorem failed_shard_run_raises:
  "decode_raises md5 ([Inl ReadError, Inr [row_a]] ! 0) 0 \<and>
   process_file md5 (Inl ReadError) 0 = ([], []) \<and>
   collect md5 [Inl ReadError, Inr [row_a]] [0, 1]
     = ([(create_hash_id md5 (CStr ''o1'') (CStr ''a1'') (CStr ''f1''), [1441, 1441])], [\<lparr>HashOwner = CStr ''o1'', HashApp = CStr ''a1'', HashFunction = CStr ''f1'',
      Trigger = CStr ''http'', original_uuid = combined (CStr ''o1'') (CStr ''a1'') (CStr ''f1''),
      new_hash_uuid = create_hash_id md5 (CStr ''o1'') (CStr ''a1'') (CStr ''f1'')\<rparr>]) \<and>
   collect md5 [Inl ReadError, Inr [row_a]] [0, 1] = collect md5 [Inl ReadError, Inr [row_a]] [1] \<and>
   process_invocation_data md5 [Inl ReadError, Inr [row_a]] [0, 1] = Inl TypeError"
proof -
  have f0: "process_file md5 (Inl ReadError) 0 = ([], [])"
    by (simp add: process_file_def)
  have c: "collect md5 [Inl ReadError, Inr [row_a]] [0, 1]
       = ([(create_hash_id md5 (CStr ''o1'') (CStr ''a1'') (CStr ''f1''), [1441, 1441])], [\<lparr>HashOwner = CStr ''o1'', HashApp = CStr ''a1'', HashFunction = CStr ''f1'',
      Trigger = CStr ''http'', original_uuid = combined (CStr ''o1'') (CStr ''a1'') (CStr ''f1''),
      new_hash_uuid = create_hash_id md5 (CStr ''o1'') (CStr ''a1'') (CStr ''f1'')\<rparr>])"
    "collect md5 [Inl ReadError, Inr [row_a]] [1]
       = ([(create_hash_id md5 (CStr ''o1'') (CStr ''a1'') (CStr ''f1''), [1441, 1441])], [\<lparr>HashOwner = CStr ''o1'', HashApp = CStr ''a1'', HashFunction = CStr ''f1'',
      Trigger = CStr ''http'', original_uuid = combined (CStr ''o1'') (CStr ''a1'') (CStr ''f1''),
      new_hash_uuid = create_hash_id md5 (CStr ''o1'') (CStr ''a1'') (CStr ''f1'')\<rparr>])"
    by (simp_all add: collect_def merge_result_def f0 process_file_row_a)
  have r: "process_invocation_data md5 [Inl ReadError, Inr [row_a]] [0, 1] = Inl TypeError"
    unfolding process_invocation_data_eq c by simp
  show ?thesis
    using f0 r unfolding c by (simp add: decode_raises_def)
qed

section \<open>Rows without invocations\<close>

text \<open>C7, as stated, fails: a row whose counts are all zero follows a row of the same
  triple with two invocations in minute 1; the all-zero row yields its record and no
  timestamps, but its identity has an entry in the partial series map of the shard.\<close>

theorem zero_row_identity_present:
  "\<forall>md5. map_of (fst (process_file md5 (Inr [row_a, row_z]) 0))
           (create_hash_id md5 (CStr ''o1'') (CStr ''a1'') (CStr ''f1'')) = Some [1, 1] \<and>
         row_timestamps row_z 0 = Inr [] \<and>
         process_row md5 0 ([], []) row_z
           = Inr ([], [\<lparr>HashOwner = CStr ''o1'', HashApp = CStr ''a1'', HashFunction = CStr ''f1'',
                      Trigger = CStr ''http'', original_uuid = ''o1_a1_f1'',
                      new_hash_uuid = create_hash_id md5 (CStr ''o1'') (CStr ''a1'') (CStr ''f1'')\<rparr>])"
  by (simp add: process_file_def row_a_def row_z_def process_row_only_at process_row_zero
        row_timestamps_zero numeral_2_eq_2 combined_def fmt_def)

text \<open>C7, amended: in a shard that decodes, every row yields one translation record; when
  every row of the shard with identity k has all counts zero, k has no entry in the partial
  series map of the shard, and when no other shard has an entry for k either, k has no
  entry in the merged series map and no row in the invocation table of a run that returns
  one.\<close>

theorem zero_row_adds_no_entry:
  assumes "files ! idx = Inr rows"
    and "process_rows md5 (int idx * 24 * 60) ([], []) rows = Inr (fi, tr)"
    and "\<forall>row\<in>set rows. row_func_id md5 row = Some k \<longrightarrow> all_zero row"
    and "\<forall>i\<in>set order. i \<noteq> idx \<longrightarrow> k \<notin> keys (fst (process_file md5 (files ! i) i))"
  shows "process_file md5 (files ! idx) idx = (fi, tr) \<and>
         map (\<lambda>t. Some (new_hash_uuid t)) tr = map (row_func_id md5) rows \<and>
         k \<notin> keys fi \<and>
         k \<notin> keys (fst (collect md5 files order)) \<and>
         (\<forall>tbl td. process_invocation_data md5 files order = Inr (tbl, td)
             \<longrightarrow> k \<notin> uuid ` set tbl)"
proof -
  have pf: "process_file md5 (files ! idx) idx = (fi, tr)"
    using assms(1,2) by (simp add: process_file_def)
  have rec: "map (\<lambda>t. Some (new_hash_uuid t)) tr = map (row_func_id md5) rows"
    using records_process_rows [OF assms(2)] by simp
  have nk: "k \<notin> keys fi" using assms(2,3) by (rule zero_rows_no_key)
  have nc: "k \<notin> keys (fst (collect md5 files order))"
    unfolding keys_collect using assms(4) pf nk by auto
  have "\<forall>tbl td. process_invocation_data md5 files order = Inr (tbl, td)
          \<longrightarrow> k \<notin> uuid ` set tbl"
    by (auto simp: process_invocation_data_eq split: if_splits)
  then show ?thesis using pf rec nk nc by simp
qed

theorem zero_row_adds_no_entry_witness:
  "\<forall>md5. [Inr [row_z]] ! 0 = (Inr [row_z] :: py_error + row_dict list) \<and>
         all_zero row_z \<and>
         row_func_id md5 row_z = Some (create_hash_id md5 (CStr ''o1'') (CStr ''a1'') (CStr ''f1'')) \<and>
         process_file md5 (Inr [row_z]) 0 = ([], [\<lparr>HashOwner = CStr ''o1'', HashApp = CStr ''a1'', HashFunction = CStr ''f1'',
      Trigger = CStr ''http'', original_uuid = combined (CStr ''o1'') (CStr ''a1'') (CStr ''f1''),
      new_hash_uuid = create_hash_id md5 (CStr ''o1'') (CStr ''a1'') (CStr ''f1'')\<rparr>]) \<and>
         create_hash_id md5 (CStr ''o1'') (CStr ''a1'') (CStr ''f1'')
           \<notin> keys (fst (collect md5 [Inr [row_z]] [0])) \<and>
         process_invocation_data md5 [Inr [row_z]] [0] = Inr ([], [\<lparr>HashOwner = CStr ''o1'', HashApp = CStr ''a1'', HashFunction = CStr ''f1'',
      Trigger = CStr ''http'', original_uuid = combined (CStr ''o1'') (CStr ''a1'') (CStr ''f1''),
      new_hash_uuid = create_hash_id md5 (CStr ''o1'') (CStr ''a1'') (CStr ''f1'')\<rparr>])"
proof
  fix md5 :: "string \<Rightarrow> 128 word"
  let ?k = "create_hash_id md5 (CStr ''o1'') (CStr ''a1'') (CStr ''f1'')"
  have a: "[Inr [row_z]] ! 0 = (Inr [row_z] :: py_error + row_dict list)" by simp
  have b: "process_rows md5 (int 0 * 24 * 60) ([], []) [row_z] = Inr ([], [\<lparr>HashOwner = CStr ''o1'', HashApp = CStr ''a1'', HashFunction = CStr ''f1'',
      Trigger = CStr ''http'', original_uuid = combined (CStr ''o1'') (CStr ''a1'') (CStr ''f1''),
      new_hash_uuid = create_hash_id md5 (CStr ''o1'') (CStr ''a1'') (CStr ''f1'')\<rparr>])"
    by (simp add: row_z_def process_row_zero)
  have z: "all_zero row_z" unfolding row_z_def by (rule all_zero_mk_row)
  have c: "\<forall>row\<in>set [row_z]. row_func_id md5 row = Some ?k \<longrightarrow> all_zero row"
    using z by simp
  have d: "\<forall>i\<in>set [0::nat]. i \<noteq> 0 \<longrightarrow>
             ?k \<notin> keys (fst (process_file md5 ([Inr [row_z]] ! i) i))"
    by simp
  have i: "row_func_id md5 row_z = Some ?k" unfolding row_z_def by (rule row_func_id_mk_row)
  show "[Inr [row_z]] ! 0 = (Inr [row_z] :: py_error + row_dict list) \<and> all_zero row_z \<and>
        row_func_id md5 row_z = Some ?k \<and>
        process_file md5 (Inr [row_z]) 0 = ([], [\<lparr>HashOwner = CStr ''o1'', HashApp = CStr ''a1'', HashFunction = CStr ''f1'',
      Trigger = CStr ''http'', original_uuid = combined (CStr ''o1'') (CStr ''a1'') (CStr ''f1''),
      new_hash_uuid = create_hash_id md5 (CStr ''o1'') (CStr ''a1'') (CStr ''f1'')\<rparr>]) \<and>
        ?k \<notin> keys (fst (collect md5 [Inr [row_z]] [0])) \<and>
        process_invocation_data md5 [Inr [row_z]] [0] = Inr ([], [\<lparr>HashOwner = CStr ''o1'', HashApp = CStr ''a1'', HashFunction = CStr ''f1'',
      Trigger = CStr ''http'', original_uuid = combined (CStr ''o1'') (CStr ''a1'') (CStr ''f1''),
      new_hash_uuid = create_hash_id md5 (CStr ''o1'') (CStr ''a1'') (CStr ''f1'')\<rparr>])"
    using a z i zero_row_adds_no_entry [OF a b c d] run_row_z [of md5] by simp
qed

section \<open>Rows of one identity in one shard\<close>

text \<open>What the row loop computes: a count c in minute m of a row gives c copies of
  \<open>base + m\<close>, all timestamps of a row lie in \<open>base + 1 .. base + 1440\<close>, and the
  series a shard holds for an identity is the list of the last row of that identity with
  a positive count.\<close>

lemma row_timestamps_Inr:
  "row_timestamps row base = Inr ts \<Longrightarrow> ts = concat (map (expand row base) [1..<1441])"
  unfolding row_timestamps_def minute_loop_eq by (simp split: if_splits)

lemma count_concat_map:
  "count (mset (concat (map f xs))) x = sum_list (map (\<lambda>k. count (mset (f k)) x) xs)"
  by (induction xs) simp_all

lemma sum_list_single_nat:
  "distinct xs \<Longrightarrow> x \<in> set xs \<Longrightarrow> sum_list (map (\<lambda>k. if k = x then c else (0::nat)) xs) = c"
proof (induction xs)
  case Nil
  then show ?case by simp
next
  case (Cons a xs)
  have z: "x \<notin> set ys \<Longrightarrow> sum_list (map (\<lambda>k. if k = x then c else (0::nat)) ys) = 0" for ys
    by (induction ys) auto
  show ?case using Cons z [of xs] by auto
qed

lemma count_expand:
  "count (mset (expand row base k)) (base + int m)
   = (if k = m then length (expand row base m) else 0)"
  by (auto simp: expand_def split: option.splits cell.splits)

lemma count_row_timestamps:
  assumes "row_timestamps row base = Inr ts" "1 \<le> m" "m < 1441"
    and "row (str_nat m) = Some (CInt c)"
  shows "count (mset ts) (base + int m) = nat c"
proof -
  have l: "length (expand row base m) = nat c" using assms(4) by (simp add: expand_def)
  have "count (mset ts) (base + int m)
        = sum_list (map (\<lambda>k. if k = m then nat c else 0) [1..<1441])"
    unfolding row_timestamps_Inr [OF assms(1)] count_concat_map count_expand l ..
  also have "\<dots> = nat c"
    using assms(2,3) by (intro sum_list_single_nat) simp_all
  finally show ?thesis .
qed

lemma set_row_timestamps:
  assumes "row_timestamps row base = Inr ts"
  shows "set ts \<subseteq> {base + 1 .. base + 1440}"
proof -
  have "set (expand row base k) \<subseteq> {base + 1 .. base + 1440}" if "k \<in> set [1..<1441]" for k
    using that by (auto simp: expand_def split: option.splits cell.splits)
  then have "\<forall>k\<in>set [1..<1441]. set (expand row base k) \<subseteq> {base + 1 .. base + 1440}"
    by blast
  then show ?thesis unfolding row_timestamps_Inr [OF assms] set_concat set_map by blast
qed

lemma map_of_process_rows_last:
  "process_rows md5 base acc rows = Inr acc' \<Longrightarrow>
   map_of (fst acc') k =
     (if filter (writes md5 base k) rows = [] then map_of (fst acc) k
      else Some (projr (row_timestamps (last (filter (writes md5 base k) rows)) base)))"
proof (induction rows arbitrary: acc)
  case Nil
  then show ?case by simp
next
  case (Cons r rs)
  then obtain a1 where a1: "process_row md5 base acc r = Inr a1"
    and rest: "process_rows md5 base a1 rs = Inr acc'"
    by (auto split: sum.splits)
  from process_row_Inr [OF a1] obtain fid ts where
    f: "row_func_id md5 r = Some fid" "row_timestamps r base = Inr ts"
       "fst a1 = (if ts \<noteq> [] then AList.update fid ts (fst acc) else fst acc)"
    by blast
  have h: "map_of (fst a1) k
           = (if writes md5 base k r then Some (projr (row_timestamps r base)) else map_of (fst acc) k)"
    using f by (auto simp: writes_def AList.update_conv')
  show ?case
    using Cons.IH [OF rest] h by simp
qed

text \<open>C2 at a shard of index 0 with two rows of the same triple, the first with count 2 in
  minute 1, the second with count 1 in minute 2: the first row expands to two copies of
  timestamp 1, but the series of the identity for the shard is the second row's list
  alone; the assignment at the end of the row loop replaces the first row's list.\<close>

theorem overwrite_within_shard:
  "fst (process_file md5 (Inr [row_a, row_b]) 0)
     = [(create_hash_id md5 (CStr ''o1'') (CStr ''a1'') (CStr ''f1''), [2])] \<and>
   row_timestamps row_a 0 = Inr [1, 1]"
  by (simp add: process_file_def row_a_def row_b_def process_row_only_at
        row_timestamps_only_at numeral_2_eq_2)

text \<open>C1 at the same shard: the minute counts of the identity's rows sum to 3; the
  merged series of the identity, whose length line 150 takes as call_count, has one
  element; and the run returns no table: it raises TypeError in lines 148-151.\<close>

theorem call_count_not_conserved:
  "minute_total row_a + minute_total row_b = 3 \<and>
   fst (collect md5 [Inr [row_a, row_b]] [0])
     = [(create_hash_id md5 (CStr ''o1'') (CStr ''a1'') (CStr ''f1''), [2])] \<and>
   process_invocation_data md5 [Inr [row_a, row_b]] [0] = Inl TypeError"
proof -
  have m: "minute_total row_a + minute_total row_b = 3"
    by (simp add: row_a_def row_b_def minute_total_only_at)
  have c: "collect md5 [Inr [row_a, row_b]] [0] = process_file md5 (Inr [row_a, row_b]) 0"
    by (simp add: collect_def merge_result_def process_file_row_a_row_b)
  have r: "process_invocation_data md5 [Inr [row_a, row_b]] [0] = Inl TypeError"
    unfolding process_invocation_data_eq c by (simp add: process_file_row_a_row_b)
  show ?thesis
    using m r unfolding c by (simp add: process_file_row_a_row_b)
qed

section \<open>Assembly\<close>



text \<open>C9: deduplication leaves no two identical rows and keeps exactly the records that
  were accumulated, each once; the translation table of every run that returns one is
  the deduplicated list of the accumulated records.\<close>

theorem translation_table_unique:
  "distinct (translation_df translation_data) \<and>
   set (translation_df translation_data) = set translation_data \<and>
   (process_invocation_data md5 files order = Inr (tbl, td)
      \<longrightarrow> td = translation_df (snd (collect md5 files order)) \<and> distinct td \<and>
          set td = set (snd (collect md5 files order)))"
  by (auto simp: translation_df_def process_invocation_data_eq split: if_splits)

theorem translation_table_unique_witness:
  "\<forall>md5. process_invocation_data md5 [Inr [row_z], Inr [row_z]] [0, 1] = Inr ([], [\<lparr>HashOwner = CStr ''o1'', HashApp = CStr ''a1'', HashFunction = CStr ''f1'',
      Trigger = CStr ''http'', original_uuid = combined (CStr ''o1'') (CStr ''a1'') (CStr ''f1''),
      new_hash_uuid = create_hash_id md5 (CStr ''o1'') (CStr ''a1'') (CStr ''f1'')\<rparr>]) \<and>
         snd (collect md5 [Inr [row_z], Inr [row_z]] [0, 1]) = [\<lparr>HashOwner = CStr ''o1'', HashApp = CStr ''a1'', HashFunction = CStr ''f1'',
      Trigger = CStr ''http'', original_uuid = combined (CStr ''o1'') (CStr ''a1'') (CStr ''f1''),
      new_hash_uuid = create_hash_id md5 (CStr ''o1'') (CStr ''a1'') (CStr ''f1'')\<rparr>, \<lparr>HashOwner = CStr ''o1'', HashApp = CStr ''a1'', HashFunction = CStr ''f1'',
      Trigger = CStr ''http'', original_uuid = combined (CStr ''o1'') (CStr ''a1'') (CStr ''f1''),
      new_hash_uuid = create_hash_id md5 (CStr ''o1'') (CStr ''a1'') (CStr ''f1'')\<rparr>] \<and>
         distinct [\<lparr>HashOwner = CStr ''o1'', HashApp = CStr ''a1'', HashFunction = CStr ''f1'',
      Trigger = CStr ''http'', original_uuid = combined (CStr ''o1'') (CStr ''a1'') (CStr ''f1''),
      new_hash_uuid = create_hash_id md5 (CStr ''o1'') (CStr ''a1'') (CStr ''f1'')\<rparr>] \<and>
         set [\<lparr>HashOwner = CStr ''o1'', HashApp = CStr ''a1'', HashFunction = CStr ''f1'',
      Trigger = CStr ''http'', original_uuid = combined (CStr ''o1'') (CStr ''a1'') (CStr ''f1''),
      new_hash_uuid = create_hash_id md5 (CStr ''o1'') (CStr ''a1'') (CStr ''f1'')\<rparr>] = set (snd (collect md5 [Inr [row_z], Inr [row_z]] [0, 1]))"
proof
  fix md5 :: "string \<Rightarrow> 128 word"
  have r: "process_invocation_data md5 [Inr [row_z], Inr [row_z]] [0, 1] = Inr ([], [\<lparr>HashOwner = CStr ''o1'', HashApp = CStr ''a1'', HashFunction = CStr ''f1'',
      Trigger = CStr ''http'', original_uuid = combined (CStr ''o1'') (CStr ''a1'') (CStr ''f1''),
      new_hash_uuid = create_hash_id md5 (CStr ''o1'') (CStr ''a1'') (CStr ''f1'')\<rparr>])"
    by (rule run_row_z_twice)
  have c: "snd (collect md5 [Inr [row_z], Inr [row_z]] [0, 1]) = [\<lparr>HashOwner = CStr ''o1'', HashApp = CStr ''a1'', HashFunction = CStr ''f1'',
      Trigger = CStr ''http'', original_uuid = combined (CStr ''o1'') (CStr ''a1'') (CStr ''f1''),
      new_hash_uuid = create_hash_id md5 (CStr ''o1'') (CStr ''a1'') (CStr ''f1'')\<rparr>, \<lparr>HashOwner = CStr ''o1'', HashApp = CStr ''a1'', HashFunction = CStr ''f1'',
      Trigger = CStr ''http'', original_uuid = combined (CStr ''o1'') (CStr ''a1'') (CStr ''f1''),
      new_hash_uuid = create_hash_id md5 (CStr ''o1'') (CStr ''a1'') (CStr ''f1'')\<rparr>]"
    using run_row_z_twice(1) [of md5] by (simp only: snd_conv)
  from translation_table_unique [of "[]" md5 "[Inr [row_z], Inr [row_z]]" "[0, 1]" "[]" "[\<lparr>HashOwner = CStr ''o1'', HashApp = CStr ''a1'', HashFunction = CStr ''f1'',
      Trigger = CStr ''http'', original_uuid = combined (CStr ''o1'') (CStr ''a1'') (CStr ''f1''),
      new_hash_uuid = create_hash_id md5 (CStr ''o1'') (CStr ''a1'') (CStr ''f1'')\<rparr>]"] r
  have "distinct [\<lparr>HashOwner = CStr ''o1'', HashApp = CStr ''a1'', HashFunction = CStr ''f1'',
      Trigger = CStr ''http'', original_uuid = combined (CStr ''o1'') (CStr ''a1'') (CStr ''f1''),
      new_hash_uuid = create_hash_id md5 (CStr ''o1'') (CStr ''a1'') (CStr ''f1'')\<rparr>]"
    "set [\<lparr>HashOwner = CStr ''o1'', HashApp = CStr ''a1'', HashFunction = CStr ''f1'',
      Trigger = CStr ''http'', original_uuid = combined (CStr ''o1'') (CStr ''a1'') (CStr ''f1''),
      new_hash_uuid = create_hash_id md5 (CStr ''o1'') (CStr ''a1'') (CStr ''f1'')\<rparr>] = set (snd (collect md5 [Inr [row_z], Inr [row_z]] [0, 1]))"
    by blast+
  then show "process_invocation_data md5 [Inr [row_z], Inr [row_z]] [0, 1] = Inr ([], [\<lparr>HashOwner = CStr ''o1'', HashApp = CStr ''a1'', HashFunction = CStr ''f1'',
      Trigger = CStr ''http'', original_uuid = combined (CStr ''o1'') (CStr ''a1'') (CStr ''f1''),
      new_hash_uuid = create_hash_id md5 (CStr ''o1'') (CStr ''a1'') (CStr ''f1'')\<rparr>]) \<and>
         snd (collect md5 [Inr [row_z], Inr [row_z]] [0, 1]) = [\<lparr>HashOwner = CStr ''o1'', HashApp = CStr ''a1'', HashFunction = CStr ''f1'',
      Trigger = CStr ''http'', original_uuid = combined (CStr ''o1'') (CStr ''a1'') (CStr ''f1''),
      new_hash_uuid = create_hash_id md5 (CStr ''o1'') (CStr ''a1'') (CStr ''f1'')\<rparr>, \<lparr>HashOwner = CStr ''o1'', HashApp = CStr ''a1'', HashFunction = CStr ''f1'',
      Trigger = CStr ''http'', original_uuid = combined (CStr ''o1'') (CStr ''a1'') (CStr ''f1''),
      new_hash_uuid = create_hash_id md5 (CStr ''o1'') (CStr ''a1'') (CStr ''f1'')\<rparr>] \<and>
         distinct [\<lparr>HashOwner = CStr ''o1'', HashApp = CStr ''a1'', HashFunction = CStr ''f1'',
      Trigger = CStr ''http'', original_uuid = combined (CStr ''o1'') (CStr ''a1'') (CStr ''f1''),
      new_hash_uuid = create_hash_id md5 (CStr ''o1'') (CStr ''a1'') (CStr ''f1'')\<rparr>] \<and>
         set [\<lparr>HashOwner = CStr ''o1'', HashApp = CStr ''a1'', HashFunction = CStr ''f1'',
      Trigger = CStr ''http'', original_uuid = combined (CStr ''o1'') (CStr ''a1'') (CStr ''f1''),
      new_hash_uuid = create_hash_id md5 (CStr ''o1'') (CStr ''a1'') (CStr ''f1'')\<rparr>] = set (snd (collect md5 [Inr [row_z], Inr [row_z]] [0, 1]))"
    using r c by blast
qed

end
